theory Spec2Isabelle
  imports Complex_Main
begin

section \<open>The item registry of server-crud.js\<close>

text \<open>
  The CRUD server keeps one module-level array \<open>items\<close> and five route handlers that read
  and mutate it. Each handler is modelled as a function from the array before the request
  to the response sent and the array after it. Handlers run to completion one at a time
  (Node's event loop), so a run of the server is a list of requests folded over the array.

  Numbers: an \<open>id\<close> is a JavaScript number that is only ever a seeded \<open>1\<close>, \<open>2\<close> or some
  \<open>last.id + 1\<close>, hence an exact integer as long as it stays below \<open>2^53\<close>; the model uses
  \<open>int\<close>. The path parameter reaches the handlers through \<open>parseInt(req.params.id)\<close>, whose
  result is an integer or \<open>NaN\<close>: the handlers below take that result, \<open>None\<close> standing for
  \<open>NaN\<close> (\<open>===\<close> with \<open>NaN\<close> is always false).
\<close>

subsection \<open>JSON values and the JavaScript operators the handlers use\<close>

text \<open>
  \<open>express.json()\<close> decodes the request body, so a field of \<open>req.body\<close> is any JSON value,
  or \<open>undefined\<close> when the key is absent (\<open>None\<close> below).
\<close>

datatype json =
    JNull
  | JBool bool
  | JNum rat
  | JStr string
  | JArr "json list"
  | JObj "(string \<times> json) list"

text \<open>Truthiness, as \<open>!v\<close> and \<open>v || d\<close> test it: \<open>null\<close>, \<open>false\<close>, \<open>0\<close> and \<open>""\<close> are falsy.\<close>

fun truthy :: "json \<Rightarrow> bool" where
  "truthy JNull = False"
| "truthy (JBool b) = b"
| "truthy (JNum n) = (n \<noteq> 0)"
| "truthy (JStr s) = (s \<noteq> [])"
| "truthy (JArr xs) = True"
| "truthy (JObj kvs) = True"

text \<open>\<open>v || d\<close>: the left operand when it is truthy (\<open>undefined\<close> is falsy), else the right.\<close>

fun logical_or :: "json option \<Rightarrow> json \<Rightarrow> json" where
  "logical_or None d = d"
| "logical_or (Some v) d = (if truthy v then v else d)"

text \<open>\<open>v ?? d\<close>: the right operand only when the left one is \<open>undefined\<close> or \<open>null\<close>.\<close>

fun nullish :: "json option \<Rightarrow> json \<Rightarrow> json" where
  "nullish None d = d"
| "nullish (Some JNull) d = d"
| "nullish (Some v) d = v"

text \<open>\<open>Array.prototype.findIndex\<close>: the first index whose element passes, \<open>None\<close> for \<open>-1\<close>.\<close>

fun findIndex :: "('a \<Rightarrow> bool) \<Rightarrow> 'a list \<Rightarrow> nat option" where
  "findIndex P [] = None"
| "findIndex P (x # xs) = (if P x then Some 0 else map_option Suc (findIndex P xs))"

text \<open>
  \<open>Array.prototype.splice(start, deleteCount)\<close> for \<open>start\<close> inside the array: the array
  of the removed elements (the call's value) and the array left behind.
\<close>

definition splice :: "nat \<Rightarrow> nat \<Rightarrow> 'a list \<Rightarrow> 'a list \<times> 'a list" where
  "splice start deleteCount xs =
     (take deleteCount (drop start xs), take start xs @ drop (start + deleteCount) xs)"

subsection \<open>Items, requests and responses\<close>

record item =
  item_id :: int
  name :: json
  description :: json

text \<open>The two fields a handler destructures from \<open>req.body\<close>.\<close>

record req_body =
  req_name :: "json option"
  req_description :: "json option"

record response =
  status :: nat
  body :: json

text \<open>What \<open>res.json(item)\<close> sends for an item: its keys in insertion order.\<close>

definition item_json :: "item \<Rightarrow> json" where
  "item_json i =
     JObj [(''id'', JNum (of_int (item_id i))), (''name'', name i),
           (''description'', description i)]"

definition error_json :: "string \<Rightarrow> json" where
  "error_json msg = JObj [(''error'', JStr msg)]"

definition not_found :: response where
  "not_found = \<lparr>status = 404, body = error_json ''Item not found''\<rparr>"

definition name_required :: response where
  "name_required = \<lparr>status = 400, body = error_json ''Name is required''\<rparr>"

text \<open>The seeded array.\<close>

definition initial_items :: "item list" where
  "initial_items =
     [\<lparr>item_id = 1, name = JStr ''Item 1'', description = JStr ''First item''\<rparr>,
      \<lparr>item_id = 2, name = JStr ''Item 2'', description = JStr ''Second item''\<rparr>]"

text \<open>The callback \<open>(i) => i.id === parseInt(req.params.id)\<close>.\<close>

definition id_matches :: "int option \<Rightarrow> item \<Rightarrow> bool" where
  "id_matches pid i = (Some (item_id i) = pid)"

subsection \<open>The route handlers\<close>

text \<open>\<open>GET /items\<close>\<close>

definition get_items :: "item list \<Rightarrow> response \<times> item list" where
  "get_items items = (\<lparr>status = 200, body = JArr (map item_json items)\<rparr>, items)"

text \<open>\<open>GET /items/:id\<close>\<close>

definition get_item :: "item list \<Rightarrow> int option \<Rightarrow> response \<times> item list" where
  "get_item items pid =
     (case find (id_matches pid) items of
        None \<Rightarrow> (not_found, items)
      | Some i \<Rightarrow> (\<lparr>status = 200, body = item_json i\<rparr>, items))"

text \<open>
  \<open>POST /items\<close>. \<open>!name\<close> holds for an absent key and for a falsy value. The new id reads
  the last element of the array.
\<close>

definition new_id :: "item list \<Rightarrow> int" where
  "new_id items = (if items \<noteq> [] then item_id (last items) + 1 else 1)"

definition post_items :: "item list \<Rightarrow> req_body \<Rightarrow> response \<times> item list" where
  "post_items items rb =
     (case req_name rb of
        None \<Rightarrow> (name_required, items)
      | Some n \<Rightarrow>
          if \<not> truthy n then (name_required, items)
          else
            let newItem = \<lparr>item_id = new_id items, name = n,
                           description = logical_or (req_description rb) (JStr '''')\<rparr>
            in (\<lparr>status = 201, body = item_json newItem\<rparr>, items @ [newItem]))"

text \<open>
  \<open>PUT /items/:id\<close>. The object spread keeps every key of the old item (its \<open>id\<close>), then
  \<open>name\<close> and \<open>description\<close> are set with \<open>??\<close>.
\<close>

definition put_item :: "item list \<Rightarrow> int option \<Rightarrow> req_body \<Rightarrow> response \<times> item list" where
  "put_item items pid rb =
     (case findIndex (id_matches pid) items of
        None \<Rightarrow> (not_found, items)
      | Some itemIndex \<Rightarrow>
          let old = items ! itemIndex;
              updated = old\<lparr>name := nullish (req_name rb) (name old),
                            description := nullish (req_description rb) (description old)\<rparr>
          in (\<lparr>status = 200, body = item_json updated\<rparr>, items[itemIndex := updated]))"

text \<open>
  \<open>DELETE /items/:id\<close>. \<open>deletedItem\<close> is bound to the value of \<open>splice\<close>, which is the
  array of the removed elements.
\<close>

definition delete_item :: "item list \<Rightarrow> int option \<Rightarrow> response \<times> item list" where
  "delete_item items pid =
     (case findIndex (id_matches pid) items of
        None \<Rightarrow> (not_found, items)
      | Some itemIndex \<Rightarrow>
          let (deletedItem, items') = splice itemIndex 1 items
          in (\<lparr>status = 200,
               body = JObj [(''message'', JStr ''Item deleted''),
                            (''deletedItem'', JArr (map item_json deletedItem))]\<rparr>,
              items'))"

subsection \<open>Runs of the server\<close>

datatype request =
    ListAll
  | GetById "int option"
  | Create req_body
  | Update "int option" req_body
  | Delete "int option"

fun handle :: "item list \<Rightarrow> request \<Rightarrow> response \<times> item list" where
  "handle items ListAll = get_items items"
| "handle items (GetById pid) = get_item items pid"
| "handle items (Create rb) = post_items items rb"
| "handle items (Update pid rb) = put_item items pid rb"
| "handle items (Delete pid) = delete_item items pid"

text \<open>The array after a list of requests, and the responses sent on the way.\<close>

fun run :: "item list \<Rightarrow> request list \<Rightarrow> item list" where
  "run items [] = items"
| "run items (r # rs) = run (snd (handle items r)) rs"

fun responses :: "item list \<Rightarrow> request list \<Rightarrow> response list" where
  "responses items [] = []"
| "responses items (r # rs) = fst (handle items r) # responses (snd (handle items r)) rs"

text \<open>
  The ids handed out by the successful \<open>POST\<close>s of a run, in the order of the requests.
\<close>

fun assigned_ids :: "item list \<Rightarrow> request list \<Rightarrow> int list" where
  "assigned_ids items [] = []"
| "assigned_ids items (Create rb # rs) =
     (if status (fst (post_items items rb)) = 201 then [new_id items] else [])
       @ assigned_ids (snd (post_items items rb)) rs"
| "assigned_ids items (r # rs) = assigned_ids (snd (handle items r)) rs"

section \<open>Facts about the array operations\<close>

lemma findIndex_None_iff: "findIndex P xs = None \<longleftrightarrow> (\<forall>x \<in> set xs. \<not> P x)"
  by (induction xs) auto

lemma findIndex_Some_first:
  "findIndex P xs = Some k \<Longrightarrow> k < length xs \<and> P (xs ! k) \<and> (\<forall>j < k. \<not> P (xs ! j))"
proof (induction xs arbitrary: k)
  case Nil
  then show ?case by simp
next
  case (Cons x xs)
  show ?case
  proof (cases "P x")
    case True
    with Cons.prems show ?thesis by simp
  next
    case False
    with Cons.prems obtain k' where k': "findIndex P xs = Some k'" "k = Suc k'"
      by auto
    from Cons.IH [OF k'(1)] False k'(2) show ?thesis
      by (auto simp: less_Suc_eq_0_disj)
  qed
qed

lemma find_None_no_match: "find P xs = None \<longleftrightarrow> (\<forall>x \<in> set xs. \<not> P x)"
  by (induction xs) auto

lemma findIndex_exists: "x \<in> set xs \<Longrightarrow> P x \<Longrightarrow> \<exists>k. findIndex P xs = Some k"
  using findIndex_None_iff [of P xs] by (cases "findIndex P xs") auto

lemma nullish_absent: "v = None \<or> v = Some JNull \<Longrightarrow> nullish v d = d"
  by auto

lemma nullish_supplied: "v \<noteq> JNull \<Longrightarrow> nullish (Some v) d = v"
  by (cases v) auto

lemma delete_item_at:
  assumes "findIndex (id_matches pid) items = Some k"
  shows "delete_item items pid =
           (\<lparr>status = 200,
             body = JObj [(''message'', JStr ''Item deleted''),
                          (''deletedItem'', JArr [item_json (items ! k)])]\<rparr>,
            take k items @ drop (Suc k) items)"
proof -
  from findIndex_Some_first [OF assms] have "k < length items" by simp
  then have "take 1 (drop k items) = [items ! k]"
    by (simp add: Cons_nth_drop_Suc [symmetric])
  then show ?thesis
    by (simp add: delete_item_def assms splice_def)
qed

lemma findIndex_snoc_only_match:
  "\<forall>x \<in> set xs. \<not> P x \<Longrightarrow> P y \<Longrightarrow> findIndex P (xs @ [y]) = Some (length xs)"
  by (induction xs) auto

lemma post_items_accepts:
  assumes "req_name rb = Some n" and "truthy n"
  shows "post_items items rb =
           (\<lparr>status = 201,
             body = item_json \<lparr>item_id = new_id items, name = n,
                      description = logical_or (req_description rb) (JStr '''')\<rparr>\<rparr>,
            items @ [\<lparr>item_id = new_id items, name = n,
                      description = logical_or (req_description rb) (JStr '''')\<rparr>])"
  using assms by (simp add: post_items_def Let_def)

section \<open>Single requests\<close>

text \<open>
  Claim C5. For every array, a \<open>POST /items\<close> whose \<open>name\<close> is absent or falsy (the empty
  string, \<open>null\<close>) is answered with status 400 and the error "Name is required", and the
  array is left as it was.
\<close>

theorem create_without_name_rejected:
  assumes "req_name rb = None \<or> (\<exists>n. req_name rb = Some n \<and> \<not> truthy n)"
  shows "post_items items rb =
           (\<lparr>status = 400, body = JObj [(''error'', JStr ''Name is required'')]\<rparr>, items)"
  using assms by (auto simp: post_items_def name_required_def error_json_def)

theorem create_without_name_rejected_witness:
  "post_items initial_items \<lparr>req_name = Some (JStr ''''), req_description = Some (JStr ''d'')\<rparr> =
     (\<lparr>status = 400, body = JObj [(''error'', JStr ''Name is required'')]\<rparr>, initial_items)
   \<and> post_items initial_items \<lparr>req_name = None, req_description = None\<rparr> =
     (\<lparr>status = 400, body = JObj [(''error'', JStr ''Name is required'')]\<rparr>, initial_items)"
  using create_without_name_rejected
          [of "\<lparr>req_name = Some (JStr ''''), req_description = Some (JStr ''d'')\<rparr>" initial_items]
        create_without_name_rejected
          [of "\<lparr>req_name = None, req_description = None\<rparr>" initial_items]
  by simp

text \<open>
  Claim C6. For every array and every parsed id that equals the \<open>id\<close> of no item in it
  (an integer, or \<open>NaN\<close>), \<open>GET /items/:id\<close>, \<open>PUT /items/:id\<close> and \<open>DELETE /items/:id\<close>
  each answer with status 404 and the error "Item not found", and leave the array as it was.
\<close>

theorem unknown_id_not_found:
  assumes "\<forall>i \<in> set items. Some (item_id i) \<noteq> pid"
  shows "get_item items pid =
           (\<lparr>status = 404, body = JObj [(''error'', JStr ''Item not found'')]\<rparr>, items)
       \<and> put_item items pid rb =
           (\<lparr>status = 404, body = JObj [(''error'', JStr ''Item not found'')]\<rparr>, items)
       \<and> delete_item items pid =
           (\<lparr>status = 404, body = JObj [(''error'', JStr ''Item not found'')]\<rparr>, items)"
proof -
  from assms have no: "\<forall>i \<in> set items. \<not> id_matches pid i"
    by (simp add: id_matches_def)
  then have f: "find (id_matches pid) items = None"
    by (simp add: find_None_no_match)
  from no have fi: "findIndex (id_matches pid) items = None"
    by (simp add: findIndex_None_iff)
  show ?thesis
    by (simp add: get_item_def put_item_def delete_item_def f fi not_found_def error_json_def)
qed

theorem unknown_id_not_found_witness:
  "get_item initial_items (Some 7) =
     (\<lparr>status = 404, body = JObj [(''error'', JStr ''Item not found'')]\<rparr>, initial_items)
   \<and> put_item initial_items (Some 7) \<lparr>req_name = Some (JStr ''x''), req_description = None\<rparr> =
     (\<lparr>status = 404, body = JObj [(''error'', JStr ''Item not found'')]\<rparr>, initial_items)
   \<and> delete_item initial_items (Some 7) =
     (\<lparr>status = 404, body = JObj [(''error'', JStr ''Item not found'')]\<rparr>, initial_items)"
proof -
  have h: "\<forall>i \<in> set initial_items. Some (item_id i) \<noteq> Some 7"
    by (simp add: initial_items_def)
  show ?thesis
    using unknown_id_not_found
            [OF h, of "\<lparr>req_name = Some (JStr ''x''), req_description = None\<rparr>"]
    by simp
qed

text \<open>
  Claim C4. For every array and every request whose \<open>name\<close> is present and truthy (a
  non-empty string in particular), \<open>POST /items\<close> answers 201 with the new item and appends
  exactly that item at the end of the array. The new item's id is the last item's id plus
  one, or 1 for an empty array; its name is the given name; its description is the empty
  string when the description is absent or \<open>null\<close>, and the given text when it is a string.
\<close>

theorem create_appends_new_item:
  assumes "req_name rb = Some n" and "truthy n"
  shows "\<exists>newItem.
           post_items items rb = (\<lparr>status = 201, body = item_json newItem\<rparr>, items @ [newItem])
         \<and> item_id newItem = (if items = [] then 1 else item_id (last items) + 1)
         \<and> name newItem = n
         \<and> (req_description rb = None \<or> req_description rb = Some JNull
              \<longrightarrow> description newItem = JStr '''')
         \<and> (\<forall>s. req_description rb = Some (JStr s) \<longrightarrow> description newItem = JStr s)"
  using assms by (auto simp: post_items_def new_id_def Let_def)

theorem create_appends_new_item_witness:
  "\<exists>newItem.
     post_items initial_items \<lparr>req_name = Some (JStr ''Item 3''), req_description = None\<rparr> =
       (\<lparr>status = 201, body = item_json newItem\<rparr>, initial_items @ [newItem])
   \<and> item_id newItem = 3
   \<and> name newItem = JStr ''Item 3''
   \<and> description newItem = JStr ''''"
  using create_appends_new_item
          [of "\<lparr>req_name = Some (JStr ''Item 3''), req_description = None\<rparr>"
              "JStr ''Item 3''" initial_items]
  by (simp add: initial_items_def)

text \<open>
  Claim C7. For every array and every item in it, \<open>PUT /items/:id\<close> with that item's id
  finds the first item \<open>k\<close> with the id, answers 200 with the updated item and stores it at
  position \<open>k\<close>. The updated item keeps the old id; its \<open>name\<close> is the old one when the
  request's \<open>name\<close> is absent or \<open>null\<close> and the supplied value otherwise, and the same
  for \<open>description\<close>, each field on its own; the array keeps its length and every other
  position keeps its item.
\<close>

theorem update_replaces_supplied_fields:
  assumes "i \<in> set items"
  shows "\<exists>k updated.
           k < length items \<and> item_id (items ! k) = item_id i
         \<and> (\<forall>j < k. item_id (items ! j) \<noteq> item_id i)
         \<and> put_item items (Some (item_id i)) rb =
             (\<lparr>status = 200, body = item_json updated\<rparr>, items[k := updated])
         \<and> item_id updated = item_id (items ! k)
         \<and> (req_name rb = None \<or> req_name rb = Some JNull
              \<longrightarrow> name updated = name (items ! k))
         \<and> (\<forall>v. req_name rb = Some v \<and> v \<noteq> JNull \<longrightarrow> name updated = v)
         \<and> (req_description rb = None \<or> req_description rb = Some JNull
              \<longrightarrow> description updated = description (items ! k))
         \<and> (\<forall>v. req_description rb = Some v \<and> v \<noteq> JNull \<longrightarrow> description updated = v)
         \<and> length (items[k := updated]) = length items
         \<and> (\<forall>j. j \<noteq> k \<longrightarrow> items[k := updated] ! j = items ! j)"
proof -
  from assms have "id_matches (Some (item_id i)) i"
    by (simp add: id_matches_def)
  with assms obtain k where k: "findIndex (id_matches (Some (item_id i))) items = Some k"
    using findIndex_exists [of i items "id_matches (Some (item_id i))"] by auto
  from findIndex_Some_first [OF k]
  have first: "k < length items" "item_id (items ! k) = item_id i"
    "\<forall>j < k. item_id (items ! j) \<noteq> item_id i"
    by (auto simp: id_matches_def)
  define updated where
    "updated = (items ! k)\<lparr>name := nullish (req_name rb) (name (items ! k)),
       description := nullish (req_description rb) (description (items ! k))\<rparr>"
  have put: "put_item items (Some (item_id i)) rb =
      (\<lparr>status = 200, body = item_json updated\<rparr>, items[k := updated])"
    by (simp add: put_item_def k Let_def updated_def)
  have fields: "item_id updated = item_id (items ! k)"
    "req_name rb = None \<or> req_name rb = Some JNull \<longrightarrow> name updated = name (items ! k)"
    "\<forall>v. req_name rb = Some v \<and> v \<noteq> JNull \<longrightarrow> name updated = v"
    "req_description rb = None \<or> req_description rb = Some JNull
       \<longrightarrow> description updated = description (items ! k)"
    "\<forall>v. req_description rb = Some v \<and> v \<noteq> JNull \<longrightarrow> description updated = v"
    by (auto simp: updated_def nullish_supplied)
  from first put fields show ?thesis
    by (intro exI [of _ k] exI [of _ updated]) simp
qed

theorem update_replaces_supplied_fields_witness:
  "\<exists>k updated.
     put_item initial_items (Some 2) \<lparr>req_name = None, req_description = Some (JStr ''Updated'')\<rparr> =
       (\<lparr>status = 200, body = item_json updated\<rparr>, initial_items[k := updated])
   \<and> k = 1 \<and> item_id updated = 2 \<and> name updated = JStr ''Item 2''
   \<and> description updated = JStr ''Updated''"
proof -
  let ?rb = "\<lparr>req_name = None, req_description = Some (JStr ''Updated'')\<rparr>"
  have mem: "initial_items ! 1 \<in> set initial_items"
    by (simp add: initial_items_def)
  have two: "item_id (initial_items ! 1) = 2"
    by (simp add: initial_items_def)
  from update_replaces_supplied_fields [OF mem, of ?rb] two
  obtain k updated where k: "k < length initial_items" "item_id (initial_items ! k) = 2"
    and put: "put_item initial_items (Some 2) ?rb =
       (\<lparr>status = 200, body = item_json updated\<rparr>, initial_items[k := updated])"
    and fields: "item_id updated = item_id (initial_items ! k)"
      "name updated = name (initial_items ! k)" "description updated = JStr ''Updated''"
    by auto
  from k have "k = 1"
    by (cases k) (auto simp: initial_items_def)
  with put fields show ?thesis
    by (intro exI [of _ k] exI [of _ updated]) (simp add: initial_items_def)
qed

text \<open>
  Claim C9. For every array and every item in it, \<open>DELETE /items/:id\<close> with that item's id
  removes the first item \<open>k\<close> with the id and nothing else: the array afterwards is the old
  one without position \<open>k\<close>, the remaining items unchanged and in their order, one item
  shorter. When the ids of the array are pairwise distinct, as they are in every state the
  server reaches, a following \<open>GET /items/:id\<close> with the deleted id answers 404.
\<close>

theorem delete_removes_one_item:
  assumes "i \<in> set items"
  shows "\<exists>k. k < length items \<and> item_id (items ! k) = item_id i
         \<and> (\<forall>j < k. item_id (items ! j) \<noteq> item_id i)
         \<and> snd (delete_item items (Some (item_id i))) = take k items @ drop (Suc k) items
         \<and> length (snd (delete_item items (Some (item_id i)))) + 1 = length items
         \<and> (distinct (map item_id items) \<longrightarrow>
              get_item (snd (delete_item items (Some (item_id i)))) (Some (item_id i)) =
                (\<lparr>status = 404, body = JObj [(''error'', JStr ''Item not found'')]\<rparr>,
                 snd (delete_item items (Some (item_id i)))))"
proof -
  let ?pid = "Some (item_id i)"
  from assms have "id_matches ?pid i"
    by (simp add: id_matches_def)
  with assms obtain k where k: "findIndex (id_matches ?pid) items = Some k"
    using findIndex_exists [of i items "id_matches ?pid"] by auto
  from findIndex_Some_first [OF k]
  have first: "k < length items" "item_id (items ! k) = item_id i"
    "\<forall>j < k. item_id (items ! j) \<noteq> item_id i"
    by (auto simp: id_matches_def)
  let ?rest = "take k items @ drop (Suc k) items"
  have rest: "snd (delete_item items ?pid) = ?rest"
    by (simp add: delete_item_at [OF k])
  from first(1) have len: "length ?rest + 1 = length items"
    by simp
  have gone: "get_item ?rest ?pid =
      (\<lparr>status = 404, body = JObj [(''error'', JStr ''Item not found'')]\<rparr>, ?rest)"
    if d: "distinct (map item_id items)"
  proof -
    from first(1) have "items = take k items @ items ! k # drop (Suc k) items"
      by (rule id_take_nth_drop)
    with d have "distinct (map item_id (take k items) @ item_id (items ! k)
        # map item_id (drop (Suc k) items))"
      by (metis list.simps(9) map_append)
    then have "item_id (items ! k) \<notin> item_id ` set (take k items)"
      "item_id (items ! k) \<notin> item_id ` set (drop (Suc k) items)"
      by auto
    with first(2) have "\<forall>x \<in> set ?rest. \<not> id_matches ?pid x"
      by (auto simp: id_matches_def image_iff)
    then have "find (id_matches ?pid) ?rest = None"
      by (simp only: find_None_no_match)
    then show ?thesis
      by (simp add: get_item_def not_found_def error_json_def)
  qed
  from first rest len gone show ?thesis
    by (intro exI [of _ k]) simp
qed

theorem delete_removes_one_item_witness:
  "snd (delete_item initial_items (Some 1)) = drop 1 initial_items
   \<and> length (snd (delete_item initial_items (Some 1))) + 1 = length initial_items
   \<and> get_item (snd (delete_item initial_items (Some 1))) (Some 1) =
       (\<lparr>status = 404, body = JObj [(''error'', JStr ''Item not found'')]\<rparr>,
        snd (delete_item initial_items (Some 1)))"
proof -
  have mem: "initial_items ! 0 \<in> set initial_items"
    by (simp add: initial_items_def)
  have one: "item_id (initial_items ! 0) = 1"
    by (simp add: initial_items_def)
  have d: "distinct (map item_id initial_items)"
    by (simp add: initial_items_def)
  from delete_removes_one_item [OF mem] one d
  obtain k where k: "k < length initial_items" "item_id (initial_items ! k) = 1"
    and rest: "snd (delete_item initial_items (Some 1)) =
        take k initial_items @ drop (Suc k) initial_items"
      "length (snd (delete_item initial_items (Some 1))) + 1 = length initial_items"
      "get_item (snd (delete_item initial_items (Some 1))) (Some 1) =
        (\<lparr>status = 404, body = JObj [(''error'', JStr ''Item not found'')]\<rparr>,
         snd (delete_item initial_items (Some 1)))"
    by auto
  from k have "k = 0"
    by (cases k) (auto simp: initial_items_def)
  with rest show ?thesis
    by simp
qed

text \<open>
  Claim C2, evaluated on the seeded array. \<open>DELETE /items/1\<close> answers 200 with
  \<open>deletedItem\<close> bound to the value of \<open>splice\<close>: the one-element array holding the removed
  item, which is not the removed item itself.
\<close>

theorem delete_seed_item_sends_array:
  "fst (delete_item initial_items (Some 1)) =
     \<lparr>status = 200,
      body = JObj [(''message'', JStr ''Item deleted''),
                   (''deletedItem'', JArr [item_json (initial_items ! 0)])]\<rparr>
   \<and> JArr [item_json (initial_items ! 0)] \<noteq> item_json (initial_items ! 0)"
  by (simp add: delete_item_def id_matches_def splice_def initial_items_def item_json_def)

text \<open>
  Claim C3, evaluated on the seeded array. \<open>PUT /items/1\<close> with the body \<open>{"name": ""}\<close>
  answers 200 and leaves the first item with the empty string as its name: \<open>??\<close> only
  falls back on \<open>null\<close> and \<open>undefined\<close>, and the handler has no check like the one of
  \<open>POST /items\<close>.
\<close>

theorem update_stores_empty_name:
  "put_item initial_items (Some 1) \<lparr>req_name = Some (JStr ''''), req_description = None\<rparr> =
     (\<lparr>status = 200,
       body = item_json \<lparr>item_id = 1, name = JStr '''', description = JStr ''First item''\<rparr>\<rparr>,
      [\<lparr>item_id = 1, name = JStr '''', description = JStr ''First item''\<rparr>,
       \<lparr>item_id = 2, name = JStr ''Item 2'', description = JStr ''Second item''\<rparr>])"
  by (simp add: put_item_def id_matches_def initial_items_def Let_def)

section \<open>Runs: the ids stay strictly increasing\<close>

lemma strictly_sorted_le_last:
  fixes xs :: "int list"
  shows "sorted_wrt (<) xs \<Longrightarrow> x \<in> set xs \<Longrightarrow> x \<le> last xs"
proof (induction xs)
  case Nil
  then show ?case by simp
next
  case (Cons y ys)
  show ?case
  proof (cases "ys = []")
    case True
    with Cons.prems show ?thesis by simp
  next
    case False
    from Cons.prems(1) have above: "\<forall>z \<in> set ys. y < z" and tl: "sorted_wrt (<) ys"
      by simp_all
    from False have "last ys \<in> set ys" by simp
    with above have "y < last ys" by blast
    moreover have "x \<le> last ys" if "x \<in> set ys"
      using Cons.IH [OF tl that] .
    ultimately show ?thesis
      using Cons.prems(2) False by auto
  qed
qed

lemma sorted_wrt_remove_nth:
  assumes "sorted_wrt P ys"
  shows "sorted_wrt P (take k ys @ drop (Suc k) ys)"
proof (cases "k < length ys")
  case True
  from assms have "sorted_wrt P (take k ys @ ys ! k # drop (Suc k) ys)"
    by (simp only: id_take_nth_drop [OF True, symmetric])
  then show ?thesis
    by (simp add: sorted_wrt_append)
next
  case False
  with assms show ?thesis by simp
qed

lemma ids_below_new_id:
  assumes "sorted_wrt (<) (map item_id items)" and "i \<in> set items"
  shows "item_id i < new_id items"
proof -
  from assms(2) have ne: "items \<noteq> []" by auto
  from assms have "item_id i \<le> last (map item_id items)"
    by (intro strictly_sorted_le_last) auto
  with ne show ?thesis
    by (simp add: new_id_def last_map)
qed

lemma post_items_cases:
  "snd (post_items items rb) = items
   \<or> (\<exists>newItem. snd (post_items items rb) = items @ [newItem] \<and> item_id newItem = new_id items)"
  by (auto simp: post_items_def Let_def split: option.splits)

lemma post_items_keeps_increasing:
  assumes "sorted_wrt (<) (map item_id items)"
  shows "sorted_wrt (<) (map item_id (snd (post_items items rb)))"
  using post_items_cases [of items rb] assms
  by (auto simp: sorted_wrt_append ids_below_new_id)

lemma put_item_keeps_ids: "map item_id (snd (put_item items pid rb)) = map item_id items"
proof (cases "findIndex (id_matches pid) items")
  case None
  then show ?thesis by (simp add: put_item_def)
next
  case (Some k)
  from findIndex_Some_first [OF Some] have "k < length items" by simp
  then have "(map item_id items)[k := item_id (items ! k)] = map item_id items"
    by (simp add: list_update_same_conv)
  then show ?thesis
    by (simp add: put_item_def Some Let_def map_update)
qed

lemma delete_item_keeps_increasing:
  assumes "sorted_wrt (<) (map item_id items)"
  shows "sorted_wrt (<) (map item_id (snd (delete_item items pid)))"
proof (cases "findIndex (id_matches pid) items")
  case None
  with assms show ?thesis by (simp add: delete_item_def)
next
  case (Some k)
  from sorted_wrt_remove_nth [OF assms, of k] show ?thesis
    by (simp add: delete_item_at [OF Some] take_map drop_map)
qed

lemma handle_keeps_increasing:
  assumes "sorted_wrt (<) (map item_id items)"
  shows "sorted_wrt (<) (map item_id (snd (handle items r)))"
proof (cases r)
  case ListAll
  with assms show ?thesis by (simp add: get_items_def)
next
  case (GetById pid)
  with assms show ?thesis by (simp add: get_item_def split: option.splits)
next
  case (Create rb)
  with assms show ?thesis by (simp add: post_items_keeps_increasing)
next
  case (Update pid rb)
  with assms show ?thesis by (simp add: put_item_keeps_ids)
next
  case (Delete pid)
  with assms show ?thesis by (simp add: delete_item_keeps_increasing)
qed

lemma run_keeps_increasing:
  "sorted_wrt (<) (map item_id items) \<Longrightarrow> sorted_wrt (<) (map item_id (run items rs))"
  by (induction rs arbitrary: items) (simp_all add: handle_keeps_increasing)

lemma reachable_increasing: "sorted_wrt (<) (map item_id (run initial_items rs))"
  by (rule run_keeps_increasing) (simp add: initial_items_def)

text \<open>
  Claim C10. In every state the server reaches from the seeded array, by any list of
  requests, the ids are strictly increasing along the array; so they are pairwise distinct,
  and the last item of a non-empty array carries the greatest id.
\<close>

theorem reachable_ids_strictly_increasing:
  "sorted_wrt (<) (map item_id (run initial_items rs))
   \<and> distinct (map item_id (run initial_items rs))
   \<and> (run initial_items rs \<noteq> [] \<longrightarrow>
        item_id (last (run initial_items rs)) = Max (item_id ` set (run initial_items rs)))"
proof -
  let ?items = "run initial_items rs"
  have inc: "sorted_wrt (<) (map item_id ?items)"
    by (rule reachable_increasing)
  then have dist: "distinct (map item_id ?items)"
    by (simp add: strict_sorted_iff)
  have "Max (item_id ` set ?items) = item_id (last ?items)" if ne: "?items \<noteq> []"
  proof (rule Max_eqI)
    show "finite (item_id ` set ?items)" by simp
    show "item_id (last ?items) \<in> item_id ` set ?items" using ne by simp
    fix y assume "y \<in> item_id ` set ?items"
    then have "y \<le> last (map item_id ?items)"
      using inc by (intro strictly_sorted_le_last) auto
    with ne show "y \<le> item_id (last ?items)" by (simp add: last_map)
  qed
  with inc dist show ?thesis by simp
qed

theorem reachable_ids_strictly_increasing_witness:
  "run initial_items [Delete (Some 1)] \<noteq> []
   \<and> item_id (last (run initial_items [Delete (Some 1)])) =
       Max (item_id ` set (run initial_items [Delete (Some 1)]))"
proof -
  have "run initial_items [Delete (Some 1)] \<noteq> []"
    by (simp add: delete_item_def id_matches_def splice_def initial_items_def)
  with reachable_ids_strictly_increasing [of "[Delete (Some 1)]"] show ?thesis
    by simp
qed

text \<open>
  Claim C1, as the code has it. In every state the server reaches from the seeded array, a
  \<open>POST /items\<close> with a truthy name appends an item whose id is greater than the id of every
  item then in the array, so the ids in the array stay pairwise distinct. The id is not
  reserved once its item is gone: deleting the item just created gives back the array as it
  was before, and the next \<open>POST /items\<close> with a truthy name hands out the same id again.
\<close>

theorem created_id_fresh_then_reused:
  assumes "req_name rb = Some n" and "truthy n"
    and "req_name rb' = Some n'" and "truthy n'"
  shows "\<exists>newItem.
           snd (post_items (run initial_items rs) rb) = run initial_items rs @ [newItem]
         \<and> (\<forall>i \<in> set (run initial_items rs). item_id i < item_id newItem)
         \<and> distinct (map item_id (run initial_items rs @ [newItem]))
         \<and> snd (delete_item (run initial_items rs @ [newItem]) (Some (item_id newItem))) =
             run initial_items rs
         \<and> assigned_ids (run initial_items rs)
             [Create rb, Delete (Some (item_id newItem)), Create rb'] =
             [item_id newItem, item_id newItem]"
proof -
  let ?items = "run initial_items rs"
  define newItem where
    "newItem = \<lparr>item_id = new_id ?items, name = n,
                description = logical_or (req_description rb) (JStr '''')\<rparr>"
  have nid: "item_id newItem = new_id ?items"
    by (simp add: newItem_def)
  have inc: "sorted_wrt (<) (map item_id ?items)"
    by (rule reachable_increasing)
  have post: "post_items ?items rb =
      (\<lparr>status = 201, body = item_json newItem\<rparr>, ?items @ [newItem])"
    unfolding newItem_def by (rule post_items_accepts [OF assms(1,2)])
  have post': "status (fst (post_items ?items rb')) = 201"
    by (simp add: post_items_accepts [OF assms(3,4)])
  have above: "\<forall>i \<in> set ?items. item_id i < item_id newItem"
    using inc by (simp add: nid ids_below_new_id)
  from inc have "distinct (map item_id ?items)"
    by (simp add: strict_sorted_iff)
  with above have dist: "distinct (map item_id (?items @ [newItem]))"
    by auto
  from above have "\<forall>i \<in> set ?items. \<not> id_matches (Some (item_id newItem)) i"
    by (auto simp: id_matches_def)
  then have "findIndex (id_matches (Some (item_id newItem))) (?items @ [newItem]) =
      Some (length ?items)"
    by (rule findIndex_snoc_only_match) (simp add: id_matches_def)
  from delete_item_at [OF this]
  have del: "snd (delete_item (?items @ [newItem]) (Some (item_id newItem))) = ?items"
    by simp
  have again: "assigned_ids ?items [Create rb, Delete (Some (item_id newItem)), Create rb'] =
      [item_id newItem, item_id newItem]"
    using del by (simp add: post post' nid)
  from post above dist del again show ?thesis
    by (intro exI [of _ newItem]) simp
qed

theorem created_id_fresh_then_reused_witness:
  "\<exists>newItem.
     snd (post_items (run initial_items [Delete (Some 1)])
            \<lparr>req_name = Some (JStr ''Item 3''), req_description = None\<rparr>) =
       run initial_items [Delete (Some 1)] @ [newItem]
   \<and> (\<forall>i \<in> set (run initial_items [Delete (Some 1)]). item_id i < item_id newItem)
   \<and> distinct (map item_id (run initial_items [Delete (Some 1)] @ [newItem]))
   \<and> snd (delete_item (run initial_items [Delete (Some 1)] @ [newItem])
            (Some (item_id newItem))) = run initial_items [Delete (Some 1)]
   \<and> assigned_ids (run initial_items [Delete (Some 1)])
       [Create \<lparr>req_name = Some (JStr ''Item 3''), req_description = None\<rparr>,
        Delete (Some (item_id newItem)),
        Create \<lparr>req_name = Some (JStr ''Item 4''), req_description = None\<rparr>] =
       [item_id newItem, item_id newItem]"
  using created_id_fresh_then_reused
          [of "\<lparr>req_name = Some (JStr ''Item 3''), req_description = None\<rparr>"
              "JStr ''Item 3''"
              "\<lparr>req_name = Some (JStr ''Item 4''), req_description = None\<rparr>"
              "JStr ''Item 4''" "[Delete (Some 1)]"]
  by simp

text \<open>
  Claim C1 as stated fails: create an item (it gets id 3), delete it, create another one.
  The second item gets id 3 again.
\<close>

theorem deleted_id_assigned_again:
  "assigned_ids initial_items
     [Create \<lparr>req_name = Some (JStr ''a''), req_description = None\<rparr>,
      Delete (Some 3),
      Create \<lparr>req_name = Some (JStr ''b''), req_description = None\<rparr>] = [3, 3]
   \<and> \<not> distinct (assigned_ids initial_items
     [Create \<lparr>req_name = Some (JStr ''a''), req_description = None\<rparr>,
      Delete (Some 3),
      Create \<lparr>req_name = Some (JStr ''b''), req_description = None\<rparr>])"
  by (simp add: post_items_def delete_item_def id_matches_def splice_def new_id_def
      initial_items_def Let_def)

section \<open>Runs of creations\<close>

lemma new_id_snoc: "new_id (items @ [i]) = item_id i + 1"
  by (simp add: new_id_def)

lemma creates_append_increasing:
  assumes "\<forall>rb \<in> set rbs. \<exists>n. req_name rb = Some n \<and> truthy n"
  shows "\<exists>created.
           run items (map Create rbs) = items @ created
         \<and> length created = length rbs
         \<and> map body (responses items (map Create rbs)) = map item_json created
         \<and> sorted_wrt (<) (map item_id created)
         \<and> (\<forall>i \<in> set created. new_id items \<le> item_id i)"
  using assms
proof (induction rbs arbitrary: items)
  case Nil
  then show ?case by simp
next
  case (Cons rb rbs)
  from Cons.prems obtain n where n: "req_name rb = Some n" "truthy n"
    by auto
  define newItem where
    "newItem = \<lparr>item_id = new_id items, name = n,
                description = logical_or (req_description rb) (JStr '''')\<rparr>"
  have post: "post_items items rb =
      (\<lparr>status = 201, body = item_json newItem\<rparr>, items @ [newItem])"
    unfolding newItem_def by (rule post_items_accepts [OF n])
  from Cons.prems have "\<forall>rb \<in> set rbs. \<exists>n. req_name rb = Some n \<and> truthy n"
    by simp
  from Cons.IH [OF this, of "items @ [newItem]"]
  obtain created where c:
    "run (items @ [newItem]) (map Create rbs) = (items @ [newItem]) @ created"
    "length created = length rbs"
    "map body (responses (items @ [newItem]) (map Create rbs)) = map item_json created"
    "sorted_wrt (<) (map item_id created)"
    "\<forall>i \<in> set created. new_id (items @ [newItem]) \<le> item_id i"
    by blast
  have nid: "item_id newItem = new_id items"
    by (simp add: newItem_def)
  from c(5) nid have later: "\<forall>i \<in> set created. new_id items < item_id i"
    by (auto simp: new_id_snoc)
  have "run items (map Create (rb # rbs)) = items @ (newItem # created)"
    using c(1) by (simp add: post)
  moreover have "length (newItem # created) = length (rb # rbs)"
    using c(2) by simp
  moreover have "map body (responses items (map Create (rb # rbs))) =
      map item_json (newItem # created)"
    using c(3) by (simp add: post)
  moreover have "sorted_wrt (<) (map item_id (newItem # created))"
    using c(4) later nid by simp
  moreover have "\<forall>i \<in> set (newItem # created). new_id items \<le> item_id i"
    using later nid by auto
  ultimately show ?case
    by blast
qed

text \<open>
  Claim C8. From any array, a run of \<open>POST /items\<close> requests that all carry a truthy name
  appends one item per request, each answered with the item created, and the ids of the
  created items are pairwise distinct and non-decreasing in creation order.
\<close>

theorem create_only_ids_increasing:
  assumes "\<forall>rb \<in> set rbs. \<exists>n. req_name rb = Some n \<and> truthy n"
  shows "\<exists>created.
           run items (map Create rbs) = items @ created
         \<and> length created = length rbs
         \<and> map body (responses items (map Create rbs)) = map item_json created
         \<and> distinct (map item_id created)
         \<and> sorted (map item_id created)"
proof -
  from creates_append_increasing [OF assms, of items]
  obtain created where c: "run items (map Create rbs) = items @ created"
    "length created = length rbs"
    "map body (responses items (map Create rbs)) = map item_json created"
    "sorted_wrt (<) (map item_id created)"
    by blast
  from c(4) have "distinct (map item_id created)" "sorted (map item_id created)"
    by (simp_all add: strict_sorted_iff)
  with c(1-3) show ?thesis
    by blast
qed

theorem create_only_ids_increasing_witness:
  "\<exists>created.
     run initial_items
       (map Create [\<lparr>req_name = Some (JStr ''Item 3''), req_description = None\<rparr>,
                    \<lparr>req_name = Some (JStr ''Item 4''), req_description = Some (JStr ''d'')\<rparr>]) =
       initial_items @ created
   \<and> length created = 2
   \<and> distinct (map item_id created)
   \<and> sorted (map item_id created)"
  using create_only_ids_increasing
          [of "[\<lparr>req_name = Some (JStr ''Item 3''), req_description = None\<rparr>,
                \<lparr>req_name = Some (JStr ''Item 4''), req_description = Some (JStr ''d'')\<rparr>]"
              initial_items]
  by auto

end
